theory Spec2Isabelle
  imports Complex_Main "HOL-Library.Word"
begin

section \<open>A free-look camera: vectors, matrices and the event loop\<close>

text \<open>
  The camera program opens two windows, draws a quad and lets the user rotate a camera by
  dragging the mouse. This theory embeds the arithmetic of the camera
  (\<open>vec3f_get_length\<close>, \<open>vec3f_normalize\<close>, \<open>vec3f_cross\<close>, \<open>mat4f_product\<close>),
  the initialisation of the camera in \<open>main\<close> (lines 249-283), the body of the event
  \<open>switch\<close> (lines 297-400) and the two nested loops around it (lines 291-432). The
  repository also holds a top-level \<open>main.c\<close> without a camera; its loop (lines 90-118)
  is embedded next to the first.

  Numbers. The C type \<open>float\<close> is embedded as \<^typ>\<open>real\<close>: every statement below is
  a statement of exact arithmetic, with \<open>sqrtf\<close>, \<open>sinf\<close>, \<open>cosf\<close> read as
  \<^const>\<open>sqrt\<close>, \<^const>\<open>sin\<close>, \<^const>\<open>cos\<close> and \<open>M_PI\<close> as \<^const>\<open>pi\<close>.
  Rounding, infinities and NaN are outside this embedding, with one exception: the
  accumulator \<open>yaw_deg\<close>, whose values are integers, is embedded a second time in
  binary32 arithmetic (\<open>yaw_add_f32\<close> below), because its rounding decides what can
  be said about its growth. The one place where exact
  arithmetic has no value is the division by a zero length in \<open>vec3f_normalize\<close>; the
  embedding returns \<open>None\<close> there, and \<open>None\<close> is passed on by everything that uses the
  result. The relative mouse motion \<open>xrel\<close>, \<open>yrel\<close> is a signed 32-bit integer
  (\<open>Sint32\<close>), embedded as a \<^typ>\<open>32 word\<close> read with \<^const>\<open>sint\<close>.
\<close>

subsection \<open>Vectors and matrices\<close>

text \<open>\<open>struct Vec3f { float value[3]; }\<close>: the three cells of the array.\<close>

datatype Vec3f = Vec3f (value0: real) (value1: real) (value2: real)

text \<open>
  \<open>struct Mat4f { float value[4][4]; }\<close>: a list of four rows of four cells,
  \<open>value[i][j]\<close> being \<open>m ! i ! j\<close>.
\<close>

type_synonym Mat4f = "real list list"

definition vec3f_get_length :: "Vec3f \<Rightarrow> real" where
  "vec3f_get_length vec =
     sqrt (value0 vec * value0 vec + value1 vec * value1 vec + value2 vec * value2 vec)"

text \<open>
  \<open>vec3f_normalize\<close> divides the three cells by the length, with no test. For a length
  of zero the quotient has no value in exact arithmetic (the C division yields NaN or an
  infinity): the result is \<open>None\<close>.
\<close>

definition vec3f_normalize :: "Vec3f \<Rightarrow> Vec3f option" where
  "vec3f_normalize vec =
     (let length = vec3f_get_length vec in
      if length = 0 then None
      else Some (Vec3f (value0 vec / length) (value1 vec / length) (value2 vec / length)))"

definition vec3f_cross :: "Vec3f \<Rightarrow> Vec3f \<Rightarrow> Vec3f" where
  "vec3f_cross vec1 vec2 = Vec3f
     (value1 vec1 * value2 vec2 - value2 vec1 * value1 vec2)
     (value2 vec1 * value0 vec2 - value0 vec1 * value2 vec2)
     (value0 vec1 * value1 vec2 - value1 vec1 * value0 vec2)"

text \<open>
  \<open>mat4f_product\<close>: the loops over \<open>i\<close> and \<open>j\<close> fill the cells of the result, the
  loop over \<open>k\<close> accumulates into the cell from \<open>0.0f\<close>.
\<close>

definition mat4f_product :: "Mat4f \<Rightarrow> Mat4f \<Rightarrow> Mat4f" where
  "mat4f_product mat1 mat2 =
     map (\<lambda>i. map (\<lambda>j. fold (\<lambda>k acc. acc + mat1 ! i ! k * mat2 ! k ! j) [0..<4] 0) [0..<4]) [0..<4]"

subsection \<open>Events and the state of \<open>main\<close>\<close>

text \<open>
  The events the \<open>switch\<close> tells apart, with the fields it reads; every other event
  type, key and button falls through the \<open>switch\<close> and is one further constructor.
\<close>

datatype SDL_Keycode = SDLK_ESCAPE | SDLK_OTHER
datatype SDL_Button = SDL_BUTTON_LEFT | SDL_BUTTON_OTHER

datatype SDL_Event =
    SDL_QUIT
  | SDL_KEYDOWN SDL_Keycode
  | SDL_MOUSEBUTTONDOWN SDL_Button
  | SDL_MOUSEBUTTONUP SDL_Button
  | SDL_MOUSEMOTION "32 word" "32 word"
  | SDL_OTHER_EVENT

text \<open>The local variables of \<open>main\<close> that the loop reads and writes.\<close>

record State =
  camera_pos :: Vec3f
  camera_dir :: Vec3f
  camera_right :: Vec3f
  camera_up :: Vec3f
  yaw_deg :: real
  pitch_deg :: real
  look_at_matrix :: Mat4f
  is_lmb_pressed :: bool
  quit :: bool

definition world_up :: Vec3f where
  "world_up = Vec3f 0 1 0"

text \<open>
  The block that builds \<open>mat1\<close> from the rows \<open>R\<close>, \<open>U\<close>, \<open>D\<close> and \<open>mat2\<close>
  from \<open>P\<close> and multiplies them; \<open>main\<close> has it twice, before the loop and at the
  end of the motion handler.
\<close>

definition look_at :: "Vec3f \<Rightarrow> Vec3f \<Rightarrow> Vec3f \<Rightarrow> Vec3f \<Rightarrow> Mat4f" where
  "look_at R U D P =
     (let mat1 = [[value0 R, value1 R, value2 R, 0],
                  [value0 U, value1 U, value2 U, 0],
                  [value0 D, value1 D, value2 D, 0],
                  [0, 0, 0, 1]];
          mat2 = [[1, 0, 0, - value0 P],
                  [0, 1, 0, - value1 P],
                  [0, 0, 1, - value2 P],
                  [0, 0, 0, 1]]
      in mat4f_product mat1 mat2)"

text \<open>The state on entry to the loop.\<close>

definition init_state :: "State option" where
  "init_state =
     (let pos = Vec3f 0 0 3;
          dir = Vec3f 0 0 (- 1)
      in case vec3f_normalize (vec3f_cross dir world_up) of
           None \<Rightarrow> None
         | Some right \<Rightarrow>
             (let up = vec3f_cross right dir
              in Some \<lparr>camera_pos = pos, camera_dir = dir,
                       camera_right = right, camera_up = up,
                       yaw_deg = 0, pitch_deg = 0,
                       look_at_matrix = look_at right up dir pos,
                       is_lmb_pressed = False, quit = False\<rparr>))"

text \<open>
  \<open>case SDL_MOUSEMOTION\<close>: nothing while the left button is up; otherwise the angles
  change, the pitch is clamped, and direction, right, up and the view matrix are rebuilt.
  The two additions are exact here; the float addition \<open>yaw_deg += xrel\<close> with its
  rounding is \<open>yaw_add_f32\<close>, and the two agree as long as the values stay within
  \<open>2^24\<close> (\<open>exact_model_agrees\<close>).
\<close>

definition mouse_motion :: "State \<Rightarrow> 32 word \<Rightarrow> 32 word \<Rightarrow> State option" where
  "mouse_motion s xrel yrel =
     (if \<not> is_lmb_pressed s then Some s
      else
        let yaw = yaw_deg s + real_of_int (sint xrel);
            pitch0 = pitch_deg s - real_of_int (sint yrel);
            pitch = (if pitch0 < - 89 then - 89 else if pitch0 > 89 then 89 else pitch0);
            yaw_rad = yaw * pi / 180;
            pitch_rad = pitch * pi / 180
        in case vec3f_normalize (Vec3f (sin yaw_rad * cos pitch_rad) (sin pitch_rad)
                                       (- cos yaw_rad * cos pitch_rad)) of
             None \<Rightarrow> None
           | Some dir \<Rightarrow>
               (case vec3f_normalize (vec3f_cross dir world_up) of
                  None \<Rightarrow> None
                | Some right \<Rightarrow>
                    (let up = vec3f_cross right dir
                     in Some (s\<lparr>yaw_deg := yaw, pitch_deg := pitch,
                                camera_dir := dir, camera_right := right, camera_up := up,
                                look_at_matrix := look_at right up dir (camera_pos s)\<rparr>))))"

text \<open>The body of the \<open>switch\<close> for one event.\<close>

fun handle_event :: "State \<Rightarrow> SDL_Event \<Rightarrow> State option" where
  "handle_event s SDL_QUIT = Some (s\<lparr>quit := True\<rparr>)"
| "handle_event s (SDL_KEYDOWN keysym) =
     (case keysym of SDLK_ESCAPE \<Rightarrow> Some (s\<lparr>quit := True\<rparr>) | SDLK_OTHER \<Rightarrow> Some s)"
| "handle_event s (SDL_MOUSEBUTTONDOWN button) =
     (case button of SDL_BUTTON_LEFT \<Rightarrow> Some (s\<lparr>is_lmb_pressed := True\<rparr>)
                   | SDL_BUTTON_OTHER \<Rightarrow> Some s)"
| "handle_event s (SDL_MOUSEBUTTONUP button) =
     (case button of SDL_BUTTON_LEFT \<Rightarrow> Some (s\<lparr>is_lmb_pressed := False\<rparr>)
                   | SDL_BUTTON_OTHER \<Rightarrow> Some s)"
| "handle_event s (SDL_MOUSEMOTION xrel yrel) = mouse_motion s xrel yrel"
| "handle_event s SDL_OTHER_EVENT = Some s"

text \<open>\<open>while (SDL_PollEvent(&event))\<close>: the pending events of one frame, in order.\<close>

fun poll_events :: "State \<Rightarrow> SDL_Event list \<Rightarrow> State option" where
  "poll_events s [] = Some s"
| "poll_events s (event # pending) =
     (case handle_event s event of None \<Rightarrow> None | Some s' \<Rightarrow> poll_events s' pending)"

text \<open>
  \<open>while (!quit)\<close>: each iteration polls the events pending at that moment, then draws
  a frame from the state it has reached (the view matrix is uploaded from
  \<open>look_at_matrix\<close>, the vectors and angles are printed). The argument lists the batches
  of pending events of the successive iterations; when it is used up and \<open>quit\<close> is
  still false, the loop is \<open>Running\<close>. The result carries the states the frames were drawn
  from.
\<close>

datatype Loop_Status = Exited | Running

fun main_loop :: "State \<Rightarrow> SDL_Event list list \<Rightarrow> (Loop_Status \<times> State list) option" where
  "main_loop s [] = Some (if quit s then Exited else Running, [])"
| "main_loop s (pending # later) =
     (if quit s then Some (Exited, [])
      else case poll_events s pending of
             None \<Rightarrow> None
           | Some s' \<Rightarrow>
               (case main_loop s' later of
                  None \<Rightarrow> None
                | Some (status, rendered) \<Rightarrow> Some (status, s' # rendered)))"

definition main :: "SDL_Event list list \<Rightarrow> (Loop_Status \<times> State list) option" where
  "main batches = (case init_state of None \<Rightarrow> None | Some s \<Rightarrow> main_loop s batches)"

subsection \<open>The loop of the top-level \<open>main.c\<close>\<close>

text \<open>
  The top-level \<open>main.c\<close> has the same two loops around a \<open>switch\<close> with a single
  case, \<open>SDL_KEYDOWN\<close>; its only variable is \<open>quit\<close>.
\<close>

fun main_c_handle_event :: "bool \<Rightarrow> SDL_Event \<Rightarrow> bool" where
  "main_c_handle_event quit_flag (SDL_KEYDOWN keysym) =
     (case keysym of SDLK_ESCAPE \<Rightarrow> True | SDLK_OTHER \<Rightarrow> quit_flag)"
| "main_c_handle_event quit_flag _ = quit_flag"

fun main_c_poll_events :: "bool \<Rightarrow> SDL_Event list \<Rightarrow> bool" where
  "main_c_poll_events quit_flag [] = quit_flag"
| "main_c_poll_events quit_flag (event # pending) =
     main_c_poll_events (main_c_handle_event quit_flag event) pending"

fun main_c_loop :: "bool \<Rightarrow> SDL_Event list list \<Rightarrow> Loop_Status" where
  "main_c_loop quit_flag [] = (if quit_flag then Exited else Running)"
| "main_c_loop quit_flag (pending # later) =
     (if quit_flag then Exited else main_c_loop (main_c_poll_events quit_flag pending) later)"

subsection \<open>The yaw accumulator in binary32\<close>

text \<open>
  \<open>float yaw_deg = 0.0f\<close> (line 257) and \<open>yaw_deg += event.motion.xrel\<close> (line 350),
  in IEEE binary32 arithmetic with round to nearest, ties to even, evaluated in \<open>float\<close>
  (\<open>FLT_EVAL_METHOD\<close> 0): \<open>xrel\<close> is converted to \<open>float\<close>, and the sum of the two
  floats is rounded to a \<open>float\<close>. The accumulator starts at zero and every value
  stored in it is the rounding of a sum of two integers, which is an integer again; so
  \<open>yaw_deg\<close> is carried as the integer it equals.

  \<open>f32_round n\<close> is the binary32 value nearest to the integer \<open>n\<close>. A binary32 number
  has 24 significant bits: \<open>f32_shift m\<close> counts the low bits of the magnitude \<open>m\<close>
  that do not fit, \<open>ulp\<close> is the spacing of the floats around \<open>m\<close>, and the
  magnitude is rounded to a multiple of \<open>ulp\<close>, a tie going to the even multiple.
  Rounding is symmetric in the sign. Overflow to infinity needs a magnitude near
  \<open>2^128\<close>, which the accumulator never comes near (\<open>yaw_drags_f32_bound\<close>).
\<close>

function f32_shift :: "int \<Rightarrow> nat" where
  "f32_shift m = (if m < 2 ^ 24 then 0 else Suc (f32_shift (m div 2)))"
  by pat_completeness auto
termination
  by (relation "measure nat") auto

declare f32_shift.simps [simp del]

definition f32_round_mag :: "int \<Rightarrow> int" where
  "f32_round_mag m =
     (let ulp = 2 ^ f32_shift m; q = m div ulp; r = m mod ulp
      in if 2 * r < ulp then q * ulp
         else if ulp < 2 * r then (q + 1) * ulp
         else if even q then q * ulp
         else (q + 1) * ulp)"

definition f32_round :: "int \<Rightarrow> int" where
  "f32_round n = (if n < 0 then - f32_round_mag (- n) else f32_round_mag n)"

definition yaw_add_f32 :: "int \<Rightarrow> 32 word \<Rightarrow> int" where
  "yaw_add_f32 yaw xrel = f32_round (yaw + f32_round (sint xrel))"

fun yaw_drags_f32 :: "int \<Rightarrow> 32 word list \<Rightarrow> int" where
  "yaw_drags_f32 yaw [] = yaw"
| "yaw_drags_f32 yaw (xrel # later) = yaw_drags_f32 (yaw_add_f32 yaw xrel) later"

subsection \<open>Notions used to state the properties\<close>

text \<open>
  These are not functions of the program. \<open>vec3f_dot\<close> is the dot product and
  \<open>basis_orthogonal\<close> says that right, up and direction are pairwise orthogonal;
  \<open>is_quit_signal\<close> holds of the window-close event and of a press of the escape key;
  \<open>clamp_pitch\<close> and \<open>spherical\<close> name two expressions of the motion handler;
  \<open>view_in_sync\<close> and \<open>pitch_in_range\<close> are the two invariants of the loop;
  \<open>drag_events\<close> turns a list of mouse deltas into motion events; \<open>exact_range\<close>
  holds of a yaw and a list of horizontal deltas when every delta and every partial sum
  is at most \<open>2^24\<close> in magnitude.
\<close>

definition vec3f_dot :: "Vec3f \<Rightarrow> Vec3f \<Rightarrow> real" where
  "vec3f_dot a b = value0 a * value0 b + value1 a * value1 b + value2 a * value2 b"

definition basis_orthogonal :: "State \<Rightarrow> bool" where
  "basis_orthogonal s \<longleftrightarrow>
     vec3f_dot (camera_right s) (camera_up s) = 0 \<and>
     vec3f_dot (camera_right s) (camera_dir s) = 0 \<and>
     vec3f_dot (camera_up s) (camera_dir s) = 0"

definition is_quit_signal :: "SDL_Event \<Rightarrow> bool" where
  "is_quit_signal event \<longleftrightarrow> event = SDL_QUIT \<or> event = SDL_KEYDOWN SDLK_ESCAPE"

definition clamp_pitch :: "real \<Rightarrow> real" where
  "clamp_pitch p = (if p < - 89 then - 89 else if p > 89 then 89 else p)"

definition spherical :: "real \<Rightarrow> real \<Rightarrow> Vec3f" where
  "spherical yaw pitch =
     Vec3f (sin (yaw * pi / 180) * cos (pitch * pi / 180)) (sin (pitch * pi / 180))
           (- cos (yaw * pi / 180) * cos (pitch * pi / 180))"

definition view_in_sync :: "State \<Rightarrow> bool" where
  "view_in_sync s \<longleftrightarrow>
     look_at_matrix s = look_at (camera_right s) (camera_up s) (camera_dir s) (camera_pos s)"

definition pitch_in_range :: "State \<Rightarrow> bool" where
  "pitch_in_range s \<longleftrightarrow> - 89 \<le> pitch_deg s \<and> pitch_deg s \<le> 89"

definition drag_events :: "(32 word \<times> 32 word) list \<Rightarrow> SDL_Event list" where
  "drag_events drags = map (\<lambda>(dx, dy). SDL_MOUSEMOTION dx dy) drags"

fun exact_range :: "int \<Rightarrow> 32 word list \<Rightarrow> bool" where
  "exact_range yaw [] \<longleftrightarrow> \<bar>yaw\<bar> \<le> 2 ^ 24"
| "exact_range yaw (xrel # later) \<longleftrightarrow>
     \<bar>yaw\<bar> \<le> 2 ^ 24 \<and> \<bar>sint xrel\<bar> \<le> 2 ^ 24 \<and> exact_range (yaw + sint xrel) later"

section \<open>Trigonometry of the motion handler\<close>

lemma sin_cos_sq: "sin x * sin x + cos x * cos x = (1::real)"
  using sin_cos_squared_add [of x] by (simp add: power2_eq_square)

lemma scaled_unit_sq:
  fixes a b c :: real
  assumes "a * a + b * b = 1"
  shows "(a * c) * (a * c) + (b * c) * (b * c) = c * c"
proof -
  have "(a * c) * (a * c) + (b * c) * (b * c) = (a * a + b * b) * (c * c)"
    by (simp add: algebra_simps)
  then show ?thesis using assms by simp
qed

lemma spherical_length: "vec3f_get_length (spherical yaw pitch) = 1"
proof -
  let ?y = "yaw * pi / 180" and ?p = "pitch * pi / 180"
  have "(sin ?y * cos ?p) * (sin ?y * cos ?p) + (cos ?y * cos ?p) * (cos ?y * cos ?p)
          = cos ?p * cos ?p"
    by (rule scaled_unit_sq) (rule sin_cos_sq)
  moreover have "sin ?p * sin ?p + cos ?p * cos ?p = 1" by (rule sin_cos_sq)
  ultimately have "(sin ?y * cos ?p) * (sin ?y * cos ?p) + sin ?p * sin ?p
          + (cos ?y * cos ?p) * (cos ?y * cos ?p) = 1"
    by linarith
  then show ?thesis
    by (simp add: vec3f_get_length_def spherical_def)
qed

lemma normalize_spherical: "vec3f_normalize (spherical yaw pitch) = Some (spherical yaw pitch)"
  by (simp add: vec3f_normalize_def spherical_length)

lemma cos_pitch_pos:
  assumes "- 89 \<le> p" "p \<le> 89"
  shows "0 < cos (p * pi / 180)"
proof (rule cos_gt_zero_pi)
  have up: "p * pi \<le> 89 * pi"
    by (rule mult_right_mono) (use assms pi_ge_zero in simp_all)
  have lo: "(- 89) * pi \<le> p * pi"
    by (rule mult_right_mono) (use assms pi_ge_zero in simp_all)
  show "p * pi / 180 < pi / 2" using up pi_gt_zero by simp
  show "- (pi / 2) < p * pi / 180" using lo by simp (use pi_gt_zero in linarith)
qed

lemma clamp_pitch_range: "- 89 \<le> clamp_pitch p \<and> clamp_pitch p \<le> 89"
  by (simp add: clamp_pitch_def)

lemma right_of_spherical:
  assumes "0 < cos (pitch * pi / 180)"
  shows "vec3f_normalize (vec3f_cross (spherical yaw pitch) world_up) =
           Some (Vec3f (cos (yaw * pi / 180)) 0 (sin (yaw * pi / 180)))"
proof -
  let ?c = "cos (pitch * pi / 180)" and ?y = "yaw * pi / 180"
  have cr: "vec3f_cross (spherical yaw pitch) world_up = Vec3f (cos ?y * ?c) 0 (sin ?y * ?c)"
    by (simp add: vec3f_cross_def spherical_def world_up_def)
  have "(cos ?y * ?c) * (cos ?y * ?c) + (sin ?y * ?c) * (sin ?y * ?c) = ?c * ?c"
    by (rule scaled_unit_sq) (simp add: sin_cos_sq add.commute)
  then have len: "vec3f_get_length (Vec3f (cos ?y * ?c) 0 (sin ?y * ?c)) = ?c"
    using assms by (simp add: vec3f_get_length_def)
  show ?thesis
    unfolding cr using assms by (simp add: vec3f_normalize_def len)
qed

lemma mouse_motion_pressed:
  assumes "is_lmb_pressed s"
  shows "mouse_motion s xrel yrel =
           (let yaw = yaw_deg s + real_of_int (sint xrel);
                pitch = clamp_pitch (pitch_deg s - real_of_int (sint yrel));
                dir = spherical yaw pitch;
                right = Vec3f (cos (yaw * pi / 180)) 0 (sin (yaw * pi / 180));
                up = vec3f_cross right dir
            in Some (s\<lparr>yaw_deg := yaw, pitch_deg := pitch,
                       camera_dir := dir, camera_right := right, camera_up := up,
                       look_at_matrix := look_at right up dir (camera_pos s)\<rparr>))"
proof -
  let ?yaw = "yaw_deg s + real_of_int (sint xrel)"
  let ?pitch = "clamp_pitch (pitch_deg s - real_of_int (sint yrel))"
  have c: "0 < cos (?pitch * pi / 180)"
    using clamp_pitch_range by (intro cos_pitch_pos) simp_all
  have sph: "\<And>y p. Vec3f (sin (y * pi / 180) * cos (p * pi / 180)) (sin (p * pi / 180))
                   (- cos (y * pi / 180) * cos (p * pi / 180)) = spherical y p"
    by (simp add: spherical_def)
  have "mouse_motion s xrel yrel =
          (case vec3f_normalize (spherical ?yaw ?pitch) of
             None \<Rightarrow> None
           | Some dir \<Rightarrow>
               (case vec3f_normalize (vec3f_cross dir world_up) of
                  None \<Rightarrow> None
                | Some right \<Rightarrow>
                    Some (s\<lparr>yaw_deg := ?yaw, pitch_deg := ?pitch,
                            camera_dir := dir, camera_right := right,
                            camera_up := vec3f_cross right dir,
                            look_at_matrix := look_at right (vec3f_cross right dir) dir (camera_pos s)\<rparr>)))"
    unfolding mouse_motion_def Let_def sph clamp_pitch_def [symmetric]
    using assms by (simp only: not_True_eq_False if_False)
  then show ?thesis
    by (simp only: normalize_spherical right_of_spherical [OF c] option.case Let_def)
qed

lemma mouse_motion_released: "\<not> is_lmb_pressed s \<Longrightarrow> mouse_motion s xrel yrel = Some s"
  by (simp add: mouse_motion_def)

lemma mouse_motion_total: "\<exists>s'. mouse_motion s xrel yrel = Some s'"
  by (cases "is_lmb_pressed s") (simp_all add: mouse_motion_pressed mouse_motion_released Let_def)

lemma handle_event_total: "\<exists>s'. handle_event s event = Some s'"
  by (cases event) (simp_all add: mouse_motion_total split: SDL_Keycode.split SDL_Button.split)

lemma poll_events_total: "\<exists>s'. poll_events s pending = Some s'"
proof (induction pending arbitrary: s)
  case Nil
  show ?case by simp
next
  case (Cons event pending)
  obtain s1 where "handle_event s event = Some s1" using handle_event_total by blast
  then show ?case using Cons.IH [of s1] by simp
qed

lemma upt_4: "[0..<4] = [0, 1, 2, 3]"
  by (simp add: upt_rec)

lemma init_state_value:
  "init_state = Some \<lparr>camera_pos = Vec3f 0 0 3, camera_dir = Vec3f 0 0 (- 1),
                       camera_right = Vec3f 1 0 0, camera_up = Vec3f 0 1 0,
                       yaw_deg = 0, pitch_deg = 0,
                       look_at_matrix = [[1, 0, 0, 0], [0, 1, 0, 0], [0, 0, - 1, 3], [0, 0, 0, 1]],
                       is_lmb_pressed = False, quit = False\<rparr>"
  by (simp add: init_state_def vec3f_normalize_def vec3f_cross_def world_up_def
      vec3f_get_length_def look_at_def mat4f_product_def Let_def upt_4)

section \<open>Orthogonality of the basis\<close>

lemma cross_dot_left: "vec3f_dot (vec3f_cross a b) a = 0"
  by (simp add: vec3f_dot_def vec3f_cross_def algebra_simps)

lemma cross_dot_right: "vec3f_dot (vec3f_cross a b) b = 0"
  by (simp add: vec3f_dot_def vec3f_cross_def algebra_simps)

lemma dot_commute: "vec3f_dot a b = vec3f_dot b a"
  by (simp add: vec3f_dot_def mult.commute)

lemma right_dot_spherical:
  "vec3f_dot (Vec3f (cos (yaw * pi / 180)) 0 (sin (yaw * pi / 180))) (spherical yaw pitch) = 0"
  by (simp add: vec3f_dot_def spherical_def)

lemma mouse_motion_pressed_orthogonal:
  assumes "is_lmb_pressed s" "mouse_motion s xrel yrel = Some s'"
  shows "basis_orthogonal s'"
proof -
  have "basis_orthogonal (the (mouse_motion s xrel yrel))"
    unfolding mouse_motion_pressed [OF assms(1)] Let_def basis_orthogonal_def
    by (simp add: right_dot_spherical cross_dot_left cross_dot_right dot_commute [of "Vec3f _ _ _" "vec3f_cross _ _"])
  then show ?thesis using assms(2) by simp
qed

lemma handle_event_orthogonal:
  assumes "handle_event s event = Some s'" "basis_orthogonal s"
  shows "basis_orthogonal s'"
proof (cases event)
  case (SDL_MOUSEMOTION xrel yrel)
  show ?thesis
  proof (cases "is_lmb_pressed s")
    case True
    then show ?thesis using assms(1) SDL_MOUSEMOTION mouse_motion_pressed_orthogonal by simp
  next
    case False
    then show ?thesis using assms SDL_MOUSEMOTION by (simp add: mouse_motion_released)
  qed
qed (use assms in \<open>auto simp: basis_orthogonal_def split: SDL_Keycode.splits SDL_Button.splits\<close>)

lemma poll_events_orthogonal:
  "poll_events s pending = Some s' \<Longrightarrow> basis_orthogonal s \<Longrightarrow> basis_orthogonal s'"
proof (induction pending arbitrary: s)
  case Nil
  then show ?case by simp
next
  case (Cons event pending)
  then show ?case
    by (auto split: option.splits dest: handle_event_orthogonal)
qed

section \<open>Invariants of the event handler and the loops\<close>

lemma handle_event_cases:
  assumes "handle_event s event = Some s'"
  obtains (motion) xrel yrel where "event = SDL_MOUSEMOTION xrel yrel" "is_lmb_pressed s"
      "mouse_motion s xrel yrel = Some s'"
    | (flags) b q where "s' = s\<lparr>is_lmb_pressed := b, quit := q\<rparr>"
proof (cases event)
  case (SDL_MOUSEMOTION xrel yrel)
  show ?thesis
  proof (cases "is_lmb_pressed s")
    case True
    then show ?thesis using assms SDL_MOUSEMOTION motion by simp
  next
    case False
    then have "s' = s\<lparr>is_lmb_pressed := is_lmb_pressed s, quit := quit s\<rparr>"
      using assms SDL_MOUSEMOTION by (simp add: mouse_motion_released)
    then show ?thesis by (rule flags)
  qed
next
  case SDL_QUIT
  then have "s' = s\<lparr>is_lmb_pressed := is_lmb_pressed s, quit := True\<rparr>" using assms by auto
  then show ?thesis by (rule flags)
next
  case (SDL_KEYDOWN k)
  then have "s' = s\<lparr>is_lmb_pressed := is_lmb_pressed s, quit := quit s' \<rparr>"
    using assms by (cases k) auto
  then show ?thesis by (rule flags)
next
  case (SDL_MOUSEBUTTONDOWN b)
  then have "s' = s\<lparr>is_lmb_pressed := is_lmb_pressed s', quit := quit s\<rparr>"
    using assms by (cases b) auto
  then show ?thesis by (rule flags)
next
  case (SDL_MOUSEBUTTONUP b)
  then have "s' = s\<lparr>is_lmb_pressed := is_lmb_pressed s', quit := quit s\<rparr>"
    using assms by (cases b) auto
  then show ?thesis by (rule flags)
next
  case SDL_OTHER_EVENT
  then have "s' = s\<lparr>is_lmb_pressed := is_lmb_pressed s, quit := quit s\<rparr>" using assms by auto
  then show ?thesis by (rule flags)
qed

lemma handle_event_view:
  assumes "handle_event s event = Some s'" "view_in_sync s"
  shows "view_in_sync s'"
  using assms(1)
proof (cases rule: handle_event_cases)
  case (motion xrel yrel)
  then show ?thesis
    by (simp add: mouse_motion_pressed Let_def view_in_sync_def) (auto simp: view_in_sync_def)
next
  case (flags b q)
  then show ?thesis using assms(2) by (simp add: view_in_sync_def)
qed

lemma handle_event_pitch:
  assumes "handle_event s event = Some s'" "pitch_in_range s"
  shows "pitch_in_range s'"
  using assms(1)
proof (cases rule: handle_event_cases)
  case (motion xrel yrel)
  then have "pitch_deg s' = clamp_pitch (pitch_deg s - real_of_int (sint yrel))"
    by (auto simp: mouse_motion_pressed Let_def)
  then show ?thesis using clamp_pitch_range by (simp add: pitch_in_range_def)
next
  case (flags b q)
  then show ?thesis using assms(2) by (simp add: pitch_in_range_def)
qed

lemma handle_event_quit:
  assumes "handle_event s event = Some s'"
  shows "quit s' \<longleftrightarrow> quit s \<or> is_quit_signal event"
proof (cases event)
  case (SDL_MOUSEMOTION xrel yrel)
  have "quit s' = quit s"
  proof (cases "is_lmb_pressed s")
    case True
    then show ?thesis using assms SDL_MOUSEMOTION by (auto simp: mouse_motion_pressed Let_def)
  next
    case False
    then show ?thesis using assms SDL_MOUSEMOTION by (simp add: mouse_motion_released)
  qed
  then show ?thesis using SDL_MOUSEMOTION by (simp add: is_quit_signal_def)
qed (use assms in \<open>auto simp: is_quit_signal_def split: SDL_Keycode.splits SDL_Button.splits\<close>)

lemma poll_events_invariant:
  assumes step: "\<And>s event s'. handle_event s event = Some s' \<Longrightarrow> P s \<Longrightarrow> P s'"
  shows "poll_events s pending = Some s' \<Longrightarrow> P s \<Longrightarrow> P s'"
proof (induction pending arbitrary: s)
  case Nil
  then show ?case by simp
next
  case (Cons event pending)
  then show ?case by (auto split: option.splits dest: step)
qed

lemma poll_events_quit:
  "poll_events s pending = Some s' \<Longrightarrow>
     quit s' \<longleftrightarrow> quit s \<or> (\<exists>event \<in> set pending. is_quit_signal event)"
proof (induction pending arbitrary: s)
  case Nil
  then show ?case by simp
next
  case (Cons event pending)
  then obtain s1 where s1: "handle_event s event = Some s1" "poll_events s1 pending = Some s'"
    by (auto split: option.splits)
  show ?case using Cons.IH [OF s1(2)] handle_event_quit [OF s1(1)] by auto
qed

lemma main_loop_total: "\<exists>status rendered. main_loop s batches = Some (status, rendered)"
proof (induction batches arbitrary: s)
  case Nil
  show ?case by simp
next
  case (Cons pending later)
  obtain s1 where s1: "poll_events s pending = Some s1" using poll_events_total by blast
  obtain status rendered where "main_loop s1 later = Some (status, rendered)"
    using Cons.IH by blast
  with s1 show ?case by simp
qed

lemma main_loop_exits_iff:
  assumes "main_loop s batches = Some (status, rendered)"
  shows "status = Exited \<longleftrightarrow> quit s \<or> (\<exists>event \<in> set (concat batches). is_quit_signal event)"
  using assms
proof (induction batches arbitrary: s status rendered)
  case Nil
  then show ?case by (auto split: if_splits)
next
  case (Cons pending later)
  show ?case
  proof (cases "quit s")
    case True
    then show ?thesis using Cons.prems by simp
  next
    case False
    then obtain s1 r1 where s1: "poll_events s pending = Some s1"
      and r1: "main_loop s1 later = Some (status, r1)"
      using Cons.prems by (auto split: option.splits)
    show ?thesis
      using Cons.IH [OF r1] poll_events_quit [OF s1] False by auto
  qed
qed

lemma main_loop_rendered:
  assumes step: "\<And>s event s'. handle_event s event = Some s' \<Longrightarrow> P s \<Longrightarrow> P s'"
  shows "main_loop s batches = Some (status, rendered) \<Longrightarrow> P s \<Longrightarrow> \<forall>r \<in> set rendered. P r"
proof (induction batches arbitrary: s status rendered)
  case Nil
  then show ?case by simp
next
  case (Cons pending later)
  show ?case
  proof (cases "quit s")
    case True
    then show ?thesis using Cons.prems by simp
  next
    case False
    then obtain s1 r1 where s1: "poll_events s pending = Some s1"
      and r1: "main_loop s1 later = Some (status, r1)" and r: "rendered = s1 # r1"
      using Cons.prems by (auto split: option.splits)
    have "P s1" using poll_events_invariant [of P, OF step s1 Cons.prems(2)] .
    then show ?thesis using Cons.IH [OF r1] r by simp
  qed
qed

lemma main_c_poll_events_quit:
  "main_c_poll_events q pending \<longleftrightarrow> q \<or> SDL_KEYDOWN SDLK_ESCAPE \<in> set pending"
proof (induction pending arbitrary: q)
  case Nil
  show ?case by simp
next
  case (Cons event pending)
  show ?case unfolding main_c_poll_events.simps Cons.IH
    by (cases event) (auto split: SDL_Keycode.splits)
qed

lemma main_c_loop_exits_iff:
  "main_c_loop q batches = Exited \<longleftrightarrow> q \<or> SDL_KEYDOWN SDLK_ESCAPE \<in> set (concat batches)"
proof (induction batches arbitrary: q)
  case Nil
  show ?case by simp
next
  case (Cons pending later)
  show ?case by (simp add: Cons.IH main_c_poll_events_quit)
qed

lemma fold_sum_4:
  "fold (\<lambda>k acc. acc + f k) [0..<4] (0::real) = (\<Sum>k<4. f k)"
  by (simp add: upt_4 lessThan_nat_numeral lessThan_Suc)

lemma mat4f_product_nth:
  assumes "i < 4" "j < 4"
  shows "mat4f_product a b ! i ! j = (\<Sum>k<4. a ! i ! k * b ! k ! j)"
  using assms by (simp add: mat4f_product_def fold_sum_4)

lemma normalize_length:
  assumes "vec3f_get_length v \<noteq> 0"
  shows "\<exists>u. vec3f_normalize v = Some u \<and> vec3f_get_length u = 1"
proof -
  let ?S = "value0 v * value0 v + value1 v * value1 v + value2 v * value2 v"
  let ?l = "vec3f_get_length v"
  have l: "?l = sqrt ?S" by (simp add: vec3f_get_length_def)
  have S0: "0 \<le> ?S" by simp
  have ll: "?l * ?l = ?S" unfolding l using S0 by simp
  have "(value0 v / ?l) * (value0 v / ?l) + (value1 v / ?l) * (value1 v / ?l)
          + (value2 v / ?l) * (value2 v / ?l) = ?S / (?l * ?l)"
    by (simp add: add_divide_distrib)
  also have "\<dots> = 1" using assms unfolding ll [symmetric] by simp
  finally have "vec3f_get_length (Vec3f (value0 v / ?l) (value1 v / ?l) (value2 v / ?l)) = 1"
    by (simp add: vec3f_get_length_def)
  then show ?thesis using assms by (simp add: vec3f_normalize_def Let_def)
qed

lemma init_orthogonal: "init_state = Some s \<Longrightarrow> basis_orthogonal s"
  unfolding init_state_value by (auto simp: basis_orthogonal_def vec3f_dot_def)

lemma init_view: "init_state = Some s \<Longrightarrow> view_in_sync s"
  unfolding init_state_value
  by (auto simp: view_in_sync_def look_at_def mat4f_product_def upt_4)

lemma init_pitch: "init_state = Some s \<Longrightarrow> pitch_in_range s"
  unfolding init_state_value by (auto simp: pitch_in_range_def)

lemma init_defined: "\<exists>s. init_state = Some s"
  by (simp add: init_state_value)

lemma drag_events_pressed:
  assumes "is_lmb_pressed s" "poll_events s (drag_events drags) = Some s'"
  shows "is_lmb_pressed s' \<and> yaw_deg s' = yaw_deg s + (\<Sum>(dx, dy)\<leftarrow>drags. real_of_int (sint dx))"
  using assms
proof (induction drags arbitrary: s)
  case Nil
  then show ?case by (simp add: drag_events_def)
next
  case (Cons d drags)
  obtain dx dy where d: "d = (dx, dy)" by (cases d)
  obtain s1 where s1: "mouse_motion s dx dy = Some s1"
    and rest: "poll_events s1 (drag_events drags) = Some s'"
    using Cons.prems(2) d by (auto simp: drag_events_def split: option.splits)
  have p1: "is_lmb_pressed s1" and y1: "yaw_deg s1 = yaw_deg s + real_of_int (sint dx)"
    using s1 Cons.prems(1) by (auto simp: mouse_motion_pressed Let_def)
  show ?case using Cons.IH [OF p1 rest] y1 d by simp
qed

section \<open>Rounding of the yaw accumulator\<close>

lemmas f32_eval = f32_round_def f32_round_mag_def f32_shift.simps yaw_add_f32_def Let_def

lemma f32_round_mag_exact:
  assumes "0 \<le> m" "m \<le> 2 ^ 24"
  shows "f32_round_mag m = m"
proof (cases "m < 2 ^ 24")
  case True
  then have "f32_shift m = 0" by (simp add: f32_shift.simps)
  then show ?thesis by (simp add: f32_round_mag_def)
next
  case False
  with assms have "m = 16777216" by simp
  then show ?thesis by (simp add: f32_round_mag_def f32_shift.simps Let_def)
qed

lemma f32_round_exact: "\<bar>n\<bar> \<le> 2 ^ 24 \<Longrightarrow> f32_round n = n"
  by (simp add: f32_round_def f32_round_mag_exact)

lemma yaw_add_f32_exact:
  assumes "\<bar>sint xrel\<bar> \<le> 2 ^ 24" "\<bar>yaw + sint xrel\<bar> \<le> 2 ^ 24"
  shows "yaw_add_f32 yaw xrel = yaw + sint xrel"
  using assms by (simp add: yaw_add_f32_def f32_round_exact)

lemma yaw_drags_f32_exact:
  "exact_range yaw drags \<Longrightarrow> yaw_drags_f32 yaw drags = yaw + (\<Sum>xrel\<leftarrow>drags. sint xrel)"
proof (induction drags arbitrary: yaw)
  case Nil
  show ?case by simp
next
  case (Cons xrel later)
  then have next_ok: "exact_range (yaw + sint xrel) later" by simp
  have "\<bar>yaw + sint xrel\<bar> \<le> 2 ^ 24" using next_ok by (cases later) simp_all
  then have "yaw_add_f32 yaw xrel = yaw + sint xrel"
    using Cons.prems by (intro yaw_add_f32_exact) simp_all
  then show ?case using Cons.IH [OF next_ok] by simp
qed

lemma f32_shift_pow_le: "1 \<le> m \<Longrightarrow> 2 ^ f32_shift m \<le> m"
proof (induction m rule: f32_shift.induct)
  case (1 m)
  show ?case
  proof (cases "m < 2 ^ 24")
    case True
    then show ?thesis using "1.prems" by (simp add: f32_shift.simps)
  next
    case False
    then have "1 \<le> m div 2" by simp
    with "1.IH" False have "2 ^ f32_shift (m div 2) \<le> m div 2" by simp
    then have "2 * 2 ^ f32_shift (m div 2) \<le> m" by simp
    then show ?thesis using False by (subst f32_shift.simps) simp
  qed
qed

lemma f32_shift_range:
  "2 ^ (23 + s) \<le> m \<Longrightarrow> m < 2 ^ (24 + s) \<Longrightarrow> f32_shift m = s"
proof (induction s arbitrary: m)
  case 0
  then show ?case by (simp add: f32_shift.simps)
next
  case (Suc s)
  have big: "\<not> m < 2 ^ 24"
  proof -
    have "(2::int) ^ 24 \<le> 2 ^ (23 + Suc s)" by (rule power_increasing) simp_all
    with Suc.prems(1) show ?thesis by simp
  qed
  define a :: int where "a = 2 ^ (23 + s)"
  have "(2::int) ^ (23 + Suc s) = 2 * a" "(2::int) ^ (24 + Suc s) = 2 * (2 * a)"
    by (simp_all add: a_def power_add)
  then have "2 * a \<le> m" "m < 2 * (2 * a)" using Suc.prems by simp_all
  then have "a \<le> m div 2" "m div 2 < 2 * a" by linarith+
  then have "2 ^ (23 + s) \<le> m div 2" "m div 2 < 2 ^ (24 + s)"
    by (simp_all add: a_def power_add)
  then have "f32_shift (m div 2) = s" by (rule Suc.IH)
  with big show ?case by (subst f32_shift.simps) simp
qed

lemma f32_round_mag_le_pow:
  assumes "0 \<le> m" "m < 2 ^ k"
  shows "f32_round_mag m \<le> 2 ^ k"
proof (cases "m = 0")
  case True
  then show ?thesis by (simp add: f32_round_mag_def f32_shift.simps)
next
  case False
  define s where "s = f32_shift m"
  define u :: int where "u = 2 ^ s"
  have m1: "1 \<le> m" using assms False by simp
  have u_pos: "0 < u" by (simp add: u_def)
  have u_le: "u \<le> m" unfolding u_def s_def by (rule f32_shift_pow_le [OF m1])
  have "(2::int) ^ s < 2 ^ k" using u_le assms(2) unfolding u_def by linarith
  then have sk: "s < k" by simp
  have pk: "(2::int) ^ k = 2 ^ (k - s) * u"
    using sk by (simp add: u_def power_add [symmetric])
  have "0 \<le> m mod u" using u_pos by simp
  moreover have "m = m div u * u + m mod u" by simp
  ultimately have qu: "m div u * u \<le> m" by linarith
  have "m div u < 2 ^ (k - s)"
  proof (rule ccontr)
    assume "\<not> m div u < 2 ^ (k - s)"
    then have "2 ^ (k - s) * u \<le> m div u * u"
      using u_pos by (intro mult_right_mono) simp_all
    with qu assms(2) show False unfolding pk by linarith
  qed
  then have "(m div u + 1) * u \<le> 2 ^ (k - s) * u"
    using u_pos by (intro mult_right_mono) simp_all
  then have top: "(m div u + 1) * u \<le> 2 ^ k" by (simp add: pk)
  have "m div u * u \<le> (m div u + 1) * u" using u_pos by (simp add: algebra_simps)
  with top have low: "m div u * u \<le> 2 ^ k" by simp
  show ?thesis
    using top low unfolding f32_round_mag_def Let_def s_def [symmetric] u_def [symmetric]
    by simp
qed

lemma f32_round_mag_top:
  assumes "2 ^ 55 \<le> m" "m \<le> 2 ^ 55 + 2 ^ 31"
  shows "f32_round_mag m = 2 ^ 55"
proof -
  have "f32_shift m = 32"
    by (rule f32_shift_range) (use assms in simp_all)
  moreover have "m div 4294967296 = 8388608" using assms by simp
  moreover have "m mod 4294967296 = m - m div 4294967296 * 4294967296"
    by (simp add: minus_div_mult_eq_mod)
  ultimately show ?thesis
    using assms by (simp add: f32_round_mag_def Let_def)
qed

lemma f32_round_mag_nonneg: "0 \<le> m \<Longrightarrow> 0 \<le> f32_round_mag m"
  by (simp add: f32_round_mag_def Let_def pos_imp_zdiv_nonneg_iff)

lemma f32_round_mag_le_31:
  assumes "0 \<le> m" "m \<le> 2 ^ 31"
  shows "f32_round_mag m \<le> 2 ^ 31"
proof (cases "m < 2 ^ 31")
  case True
  with assms(1) show ?thesis by (rule f32_round_mag_le_pow)
next
  case False
  with assms have "m = 2147483648" by simp
  then show ?thesis by (simp add: f32_round_mag_def f32_shift.simps Let_def)
qed

lemma f32_round_mag_le_55:
  assumes "0 \<le> m" "m \<le> 2 ^ 55 + 2 ^ 31"
  shows "f32_round_mag m \<le> 2 ^ 55"
proof (cases "m < 2 ^ 55")
  case True
  with assms(1) show ?thesis by (rule f32_round_mag_le_pow)
next
  case False
  then have "f32_round_mag m = 2 ^ 55" using assms by (intro f32_round_mag_top) simp_all
  then show ?thesis by simp
qed

lemma f32_round_abs_le_31: "\<bar>n\<bar> \<le> 2 ^ 31 \<Longrightarrow> \<bar>f32_round n\<bar> \<le> 2 ^ 31"
  using f32_round_mag_le_31 [of n] f32_round_mag_le_31 [of "- n"]
    f32_round_mag_nonneg [of n] f32_round_mag_nonneg [of "- n"]
  by (simp add: f32_round_def)

lemma f32_round_abs_le_55: "\<bar>n\<bar> \<le> 2 ^ 55 + 2 ^ 31 \<Longrightarrow> \<bar>f32_round n\<bar> \<le> 2 ^ 55"
  using f32_round_mag_le_55 [of n] f32_round_mag_le_55 [of "- n"]
    f32_round_mag_nonneg [of n] f32_round_mag_nonneg [of "- n"]
  by (simp add: f32_round_def)

lemma sint_32_abs: "\<bar>sint (x :: 32 word)\<bar> \<le> 2 ^ 31"
  using sint_ge [of x] sint_lt [of x] by simp

lemma yaw_add_f32_bound:
  assumes "\<bar>yaw\<bar> \<le> 2 ^ 55"
  shows "\<bar>yaw_add_f32 yaw xrel\<bar> \<le> 2 ^ 55"
proof -
  have "\<bar>f32_round (sint xrel)\<bar> \<le> 2 ^ 31"
    by (rule f32_round_abs_le_31) (rule sint_32_abs)
  with assms have "\<bar>yaw + f32_round (sint xrel)\<bar> \<le> 2 ^ 55 + 2 ^ 31" by linarith
  then show ?thesis unfolding yaw_add_f32_def by (rule f32_round_abs_le_55)
qed

lemma yaw_drags_f32_bound:
  "\<bar>yaw\<bar> \<le> 2 ^ 55 \<Longrightarrow> \<bar>yaw_drags_f32 yaw drags\<bar> \<le> 2 ^ 55"
proof (induction drags arbitrary: yaw)
  case Nil
  then show ?case by simp
next
  case (Cons xrel later)
  have "\<bar>yaw_add_f32 yaw xrel\<bar> \<le> 2 ^ 55" using Cons.prems by (rule yaw_add_f32_bound)
  then have "\<bar>yaw_drags_f32 (yaw_add_f32 yaw xrel) later\<bar> \<le> 2 ^ 55" by (rule Cons.IH)
  then show ?case by simp
qed

lemma exact_model_agrees:
  assumes "is_lmb_pressed s" "yaw_deg s = real_of_int yaw" "exact_range yaw xrels"
  shows "\<exists>s'. poll_events s (map (\<lambda>xrel. SDL_MOUSEMOTION xrel yrel) xrels) = Some s' \<and>
           yaw_deg s' = real_of_int (yaw_drags_f32 yaw xrels)"
proof -
  let ?drags = "map (\<lambda>xrel. (xrel, yrel)) xrels"
  have ev: "map (\<lambda>xrel. SDL_MOUSEMOTION xrel yrel) xrels = drag_events ?drags"
    by (simp add: drag_events_def comp_def)
  obtain s' where s': "poll_events s (drag_events ?drags) = Some s'"
    using poll_events_total by blast
  have "(\<Sum>(dx, dy)\<leftarrow>?drags. real_of_int (sint dx)) = real_of_int (\<Sum>xrel\<leftarrow>xrels. sint xrel)"
    by (induction xrels) simp_all
  with drag_events_pressed [OF assms(1) s'] assms(2)
  have "yaw_deg s' = real_of_int (yaw + (\<Sum>xrel\<leftarrow>xrels. sint xrel))" by simp
  with yaw_drags_f32_exact [OF assms(3)] s' ev show ?thesis by simp
qed

section \<open>The claims\<close>

text \<open>
  Claim C1. From the state on entry to the loop, after any sequence of events (button
  presses, releases, drags and all others, in any order) the vectors \<open>camera_right\<close>,
  \<open>camera_up\<close> and \<open>camera_dir\<close> are defined and their three pairwise dot products
  are zero; and from any state whatever with the left button held, the same holds after
  any non-empty sequence of drags. World-up is the constant \<open>(0, 1, 0)\<close>; the clamp of
  the pitch keeps the direction from ever being parallel to it, so no normalisation
  divides by zero.
\<close>

theorem camera_basis_orthogonal:
  "(\<exists>s0 s. init_state = Some s0 \<and> poll_events s0 events = Some s \<and> basis_orthogonal s) \<and>
   (is_lmb_pressed s1 \<and> drags \<noteq> [] \<longrightarrow>
      (\<exists>s. poll_events s1 (drag_events drags) = Some s \<and> basis_orthogonal s))"
proof (intro conjI impI)
  obtain s0 where s0: "init_state = Some s0" using init_defined by blast
  obtain s where s: "poll_events s0 events = Some s" using poll_events_total by blast
  have "basis_orthogonal s"
    using poll_events_orthogonal [OF s] init_orthogonal [OF s0] by blast
  with s0 s show "\<exists>s0 s. init_state = Some s0 \<and> poll_events s0 events = Some s \<and> basis_orthogonal s"
    by blast
next
  assume a: "is_lmb_pressed s1 \<and> drags \<noteq> []"
  then obtain d rest where drags: "drags = d # rest" by (cases drags) auto
  obtain dx dy where d: "d = (dx, dy)" by (cases d)
  obtain s2 where s2: "mouse_motion s1 dx dy = Some s2" using mouse_motion_total by blast
  have o2: "basis_orthogonal s2" using mouse_motion_pressed_orthogonal s2 a by blast
  obtain s where s: "poll_events s2 (drag_events rest) = Some s" using poll_events_total by blast
  have "basis_orthogonal s"
    using poll_events_orthogonal [OF s] o2 by blast
  moreover have "poll_events s1 (drag_events drags) = Some s"
    using s s2 by (simp add: drags d drag_events_def)
  ultimately show "\<exists>s. poll_events s1 (drag_events drags) = Some s \<and> basis_orthogonal s"
    by blast
qed

theorem camera_basis_orthogonal_witness:
  "(\<exists>s0 s. init_state = Some s0 \<and>
      poll_events s0 [SDL_MOUSEBUTTONDOWN SDL_BUTTON_LEFT, SDL_MOUSEMOTION 90 0] = Some s \<and>
      camera_dir s = Vec3f 1 0 0 \<and> basis_orthogonal s) \<and>
   is_lmb_pressed
     \<lparr>camera_pos = Vec3f 0 0 3, camera_dir = Vec3f 0 0 (- 1), camera_right = Vec3f 1 0 0,
      camera_up = Vec3f 0 1 0, yaw_deg = 0, pitch_deg = 0,
      look_at_matrix = [[1, 0, 0, 0], [0, 1, 0, 0], [0, 0, - 1, 3], [0, 0, 0, 1]],
      is_lmb_pressed = True, quit = False\<rparr> \<and>
   [(30, 7), (- 5, 100 :: 32 word)] \<noteq> ([] :: (32 word \<times> 32 word) list) \<and>
   (\<exists>s. poll_events
      \<lparr>camera_pos = Vec3f 0 0 3, camera_dir = Vec3f 0 0 (- 1), camera_right = Vec3f 1 0 0,
       camera_up = Vec3f 0 1 0, yaw_deg = 0, pitch_deg = 0,
       look_at_matrix = [[1, 0, 0, 0], [0, 1, 0, 0], [0, 0, - 1, 3], [0, 0, 0, 1]],
       is_lmb_pressed = True, quit = False\<rparr>
        (drag_events [(30, 7), (- 5, 100)]) = Some s \<and> basis_orthogonal s)"
proof -
  let ?events = "[SDL_MOUSEBUTTONDOWN SDL_BUTTON_LEFT, SDL_MOUSEMOTION 90 0]"
  let ?s1 = "\<lparr>camera_pos = Vec3f 0 0 3, camera_dir = Vec3f 0 0 (- 1), camera_right = Vec3f 1 0 0,
      camera_up = Vec3f 0 1 0, yaw_deg = 0, pitch_deg = 0,
      look_at_matrix = [[1, 0, 0, 0], [0, 1, 0, 0], [0, 0, - 1, 3], [0, 0, 0, 1]],
      is_lmb_pressed = True, quit = False\<rparr>"
  note inst = camera_basis_orthogonal [of ?events ?s1 "[(30, 7), (- 5, 100)]"]
  from inst obtain s0 s where s: "init_state = Some s0" "poll_events s0 ?events = Some s"
    "basis_orthogonal s" by blast
  have "camera_dir s = Vec3f 1 0 0"
    using s(1,2)
    by (auto simp: init_state_value mouse_motion_def Let_def vec3f_normalize_def vec3f_cross_def
        world_up_def vec3f_get_length_def)
  with s have first: "\<exists>s0 s. init_state = Some s0 \<and> poll_events s0 ?events = Some s \<and>
      camera_dir s = Vec3f 1 0 0 \<and> basis_orthogonal s" by blast
  have pre: "is_lmb_pressed ?s1 \<and> [(30, 7), (- 5, 100 :: 32 word)] \<noteq> ([] :: (32 word \<times> 32 word) list)"
    by simp
  with inst have "\<exists>s. poll_events ?s1 (drag_events [(30, 7), (- 5, 100)]) = Some s \<and> basis_orthogonal s"
    by blast
  with first pre show ?thesis by blast
qed



text \<open>
  Claim C3. In every frame the loop draws, the view matrix that is uploaded is the product
  \<open>mat4f_product mat1 mat2\<close>, where the rows of \<open>mat1\<close> are right, up and direction
  with a homogeneous fourth row and column and \<open>mat2\<close> is the identity with the negated
  camera position in its fourth column; and every cell of a product is
  \<open>result[i][j] = \<Sum>k<4. a[i][k] * b[k][j]\<close>.
\<close>

theorem view_matrix_rotation_times_translation:
  "(\<exists>status rendered. main batches = Some (status, rendered) \<and>
      (\<forall>s \<in> set rendered.
         look_at_matrix s =
           mat4f_product
             [[value0 (camera_right s), value1 (camera_right s), value2 (camera_right s), 0],
              [value0 (camera_up s), value1 (camera_up s), value2 (camera_up s), 0],
              [value0 (camera_dir s), value1 (camera_dir s), value2 (camera_dir s), 0],
              [0, 0, 0, 1]]
             [[1, 0, 0, - value0 (camera_pos s)],
              [0, 1, 0, - value1 (camera_pos s)],
              [0, 0, 1, - value2 (camera_pos s)],
              [0, 0, 0, 1]])) \<and>
   (\<forall>i < 4. \<forall>j < 4. mat4f_product a b ! i ! j = (\<Sum>k < 4. a ! i ! k * b ! k ! j))"
proof (intro conjI allI impI)
  obtain s0 where s0: "init_state = Some s0" using init_defined by blast
  obtain status rendered where run: "main_loop s0 batches = Some (status, rendered)"
    using main_loop_total by blast
  have "\<forall>s \<in> set rendered. view_in_sync s"
    by (rule main_loop_rendered [where P = view_in_sync, OF _ run init_view [OF s0]])
      (rule handle_event_view)
  then have "\<forall>s \<in> set rendered.
         look_at_matrix s =
           mat4f_product
             [[value0 (camera_right s), value1 (camera_right s), value2 (camera_right s), 0],
              [value0 (camera_up s), value1 (camera_up s), value2 (camera_up s), 0],
              [value0 (camera_dir s), value1 (camera_dir s), value2 (camera_dir s), 0],
              [0, 0, 0, 1]]
             [[1, 0, 0, - value0 (camera_pos s)],
              [0, 1, 0, - value1 (camera_pos s)],
              [0, 0, 1, - value2 (camera_pos s)],
              [0, 0, 0, 1]]"
    by (simp add: view_in_sync_def look_at_def Let_def)
  moreover have "main batches = Some (status, rendered)"
    unfolding main_def s0 using run by simp
  ultimately show "\<exists>status rendered. main batches = Some (status, rendered) \<and>
      (\<forall>s \<in> set rendered.
         look_at_matrix s =
           mat4f_product
             [[value0 (camera_right s), value1 (camera_right s), value2 (camera_right s), 0],
              [value0 (camera_up s), value1 (camera_up s), value2 (camera_up s), 0],
              [value0 (camera_dir s), value1 (camera_dir s), value2 (camera_dir s), 0],
              [0, 0, 0, 1]]
             [[1, 0, 0, - value0 (camera_pos s)],
              [0, 1, 0, - value1 (camera_pos s)],
              [0, 0, 1, - value2 (camera_pos s)],
              [0, 0, 0, 1]])"
    by blast
next
  fix i j :: nat
  assume "i < 4" "j < 4"
  then show "mat4f_product a b ! i ! j = (\<Sum>k < 4. a ! i ! k * b ! k ! j)"
    by (rule mat4f_product_nth)
qed

lemma main_example:
  "main [[SDL_MOUSEBUTTONDOWN SDL_BUTTON_LEFT, SDL_MOUSEMOTION 90 0], [SDL_QUIT], [SDL_OTHER_EVENT]] =
     Some (Exited,
       [\<lparr>camera_pos = Vec3f 0 0 3, camera_dir = Vec3f 1 0 0, camera_right = Vec3f 0 0 1,
         camera_up = Vec3f 0 1 0, yaw_deg = 90, pitch_deg = 0,
         look_at_matrix = [[0, 0, 1, - 3], [0, 1, 0, 0], [1, 0, 0, 0], [0, 0, 0, 1]],
         is_lmb_pressed = True, quit = False\<rparr>,
        \<lparr>camera_pos = Vec3f 0 0 3, camera_dir = Vec3f 1 0 0, camera_right = Vec3f 0 0 1,
         camera_up = Vec3f 0 1 0, yaw_deg = 90, pitch_deg = 0,
         look_at_matrix = [[0, 0, 1, - 3], [0, 1, 0, 0], [1, 0, 0, 0], [0, 0, 0, 1]],
         is_lmb_pressed = True, quit = True\<rparr>])"
  by (simp add: main_def init_state_value mouse_motion_def Let_def vec3f_normalize_def
      vec3f_cross_def world_up_def vec3f_get_length_def look_at_def mat4f_product_def upt_4)

theorem view_matrix_rotation_times_translation_witness:
  "(\<exists>status s1 s2.
      main [[SDL_MOUSEBUTTONDOWN SDL_BUTTON_LEFT, SDL_MOUSEMOTION 90 0], [SDL_QUIT],
            [SDL_OTHER_EVENT]] = Some (status, [s1, s2]) \<and>
      camera_right s1 = Vec3f 0 0 1 \<and> camera_up s1 = Vec3f 0 1 0 \<and>
      camera_dir s1 = Vec3f 1 0 0 \<and> camera_pos s1 = Vec3f 0 0 3 \<and>
      look_at_matrix s1 =
        mat4f_product [[0, 0, 1, 0], [0, 1, 0, 0], [1, 0, 0, 0], [0, 0, 0, 1]]
                      [[1, 0, 0, 0], [0, 1, 0, 0], [0, 0, 1, - 3], [0, 0, 0, 1]] \<and>
      look_at_matrix s1 = [[0, 0, 1, - 3], [0, 1, 0, 0], [1, 0, 0, 0], [0, 0, 0, 1]]) \<and>
   (0 :: nat) < 4 \<and> (3 :: nat) < 4 \<and>
   mat4f_product [[0, 0, 1, 0], [0, 1, 0, 0], [1, 0, 0, 0], [0, 0, 0, 1]]
                 [[1, 0, 0, 0], [0, 1, 0, 0], [0, 0, 1, - 3], [0, 0, 0, 1]] ! 0 ! 3 = - 3"
proof -
  let ?batches = "[[SDL_MOUSEBUTTONDOWN SDL_BUTTON_LEFT, SDL_MOUSEMOTION 90 0], [SDL_QUIT],
            [SDL_OTHER_EVENT]]"
  let ?a = "[[0, 0, 1, 0], [0, 1, 0, 0], [1, 0, 0, 0], [0, 0, 0, 1::real]]"
  let ?b = "[[1, 0, 0, 0], [0, 1, 0, 0], [0, 0, 1, - 3], [0, 0, 0, 1::real]]"
  note inst = view_matrix_rotation_times_translation [of ?batches ?a ?b]
  from inst obtain status rendered where r: "main ?batches = Some (status, rendered)"
    and v: "\<forall>s \<in> set rendered.
         look_at_matrix s =
           mat4f_product
             [[value0 (camera_right s), value1 (camera_right s), value2 (camera_right s), 0],
              [value0 (camera_up s), value1 (camera_up s), value2 (camera_up s), 0],
              [value0 (camera_dir s), value1 (camera_dir s), value2 (camera_dir s), 0],
              [0, 0, 0, 1]]
             [[1, 0, 0, - value0 (camera_pos s)],
              [0, 1, 0, - value1 (camera_pos s)],
              [0, 0, 1, - value2 (camera_pos s)],
              [0, 0, 0, 1]]"
    by blast
  define s1 where "s1 = \<lparr>camera_pos = Vec3f 0 0 3, camera_dir = Vec3f 1 0 0,
         camera_right = Vec3f 0 0 1, camera_up = Vec3f 0 1 0, yaw_deg = 90, pitch_deg = 0,
         look_at_matrix = [[0, 0, 1, - 3], [0, 1, 0, 0], [1, 0, 0, 0], [0, 0, 0, 1]],
         is_lmb_pressed = True, quit = False\<rparr>"
  define s2 where "s2 = s1\<lparr>quit := True\<rparr>"
  have ex: "main ?batches = Some (Exited, [s1, s2])"
    unfolding main_example s1_def s2_def by simp
  have fields: "camera_right s1 = Vec3f 0 0 1" "camera_up s1 = Vec3f 0 1 0"
      "camera_dir s1 = Vec3f 1 0 0" "camera_pos s1 = Vec3f 0 0 3"
      "look_at_matrix s1 = [[0, 0, 1, - 3], [0, 1, 0, 0], [1, 0, 0, 0], [0, 0, 0, 1]]"
    by (simp_all add: s1_def)
  have "rendered = [s1, s2]" using r unfolding ex by simp
  then have "s1 \<in> set rendered" by simp
  with v have "look_at_matrix s1 =
           mat4f_product
             [[value0 (camera_right s1), value1 (camera_right s1), value2 (camera_right s1), 0],
              [value0 (camera_up s1), value1 (camera_up s1), value2 (camera_up s1), 0],
              [value0 (camera_dir s1), value1 (camera_dir s1), value2 (camera_dir s1), 0],
              [0, 0, 0, 1]]
             [[1, 0, 0, - value0 (camera_pos s1)],
              [0, 1, 0, - value1 (camera_pos s1)],
              [0, 0, 1, - value2 (camera_pos s1)],
              [0, 0, 0, 1]]"
    by (rule bspec)
  then have prod: "look_at_matrix s1 = mat4f_product ?a ?b"
    unfolding fields(1-4) by simp
  have first: "\<exists>status s1 s2.
      main ?batches = Some (status, [s1, s2]) \<and>
      camera_right s1 = Vec3f 0 0 1 \<and> camera_up s1 = Vec3f 0 1 0 \<and>
      camera_dir s1 = Vec3f 1 0 0 \<and> camera_pos s1 = Vec3f 0 0 3 \<and>
      look_at_matrix s1 = mat4f_product ?a ?b \<and>
      look_at_matrix s1 = [[0, 0, 1, - 3], [0, 1, 0, 0], [1, 0, 0, 0], [0, 0, 0, 1]]"
    apply (rule exI [of _ Exited])
    apply (rule exI [of _ s1])
    apply (rule exI [of _ s2])
    apply (intro conjI)
          apply (rule ex)
         apply (rule fields(1))
        apply (rule fields(2))
       apply (rule fields(3))
      apply (rule fields(4))
     apply (rule prod)
    apply (rule fields(5))
    done
  have "mat4f_product ?a ?b ! 0 ! 3 = (\<Sum>k < 4. ?a ! 0 ! k * ?b ! k ! 3)"
    using inst by simp
  then have "mat4f_product ?a ?b ! 0 ! 3 = - 3"
    by (simp add: lessThan_nat_numeral lessThan_Suc)
  moreover have "(0 :: nat) < 4 \<and> (3 :: nat) < 4" by simp
  ultimately show ?thesis using first by (intro conjI) simp_all
qed

text \<open>
  Claim C4. After any sequence of events from the state on entry to the loop (hence after
  each event of the sequence), \<open>pitch_deg\<close> lies in \<open>[-89, 89]\<close>; and one drag from
  any state with the left button held, whatever its pitch and whatever the size of the
  motion, leaves \<open>pitch_deg\<close> in \<open>[-89, 89]\<close>.
\<close>

theorem pitch_always_clamped:
  "(\<exists>s0 s. init_state = Some s0 \<and> poll_events s0 events = Some s \<and>
      - 89 \<le> pitch_deg s \<and> pitch_deg s \<le> 89) \<and>
   (is_lmb_pressed s1 \<longrightarrow>
      (\<exists>s. handle_event s1 (SDL_MOUSEMOTION xrel yrel) = Some s \<and>
         - 89 \<le> pitch_deg s \<and> pitch_deg s \<le> 89))"
proof (intro conjI impI)
  obtain s0 where s0: "init_state = Some s0" using init_defined by blast
  obtain s where s: "poll_events s0 events = Some s" using poll_events_total by blast
  have "pitch_in_range s"
    by (rule poll_events_invariant [where P = pitch_in_range, OF _ s init_pitch [OF s0]])
      (rule handle_event_pitch)
  with s0 s show "\<exists>s0 s. init_state = Some s0 \<and> poll_events s0 events = Some s \<and>
      - 89 \<le> pitch_deg s \<and> pitch_deg s \<le> 89"
    unfolding pitch_in_range_def by blast
next
  assume pressed: "is_lmb_pressed s1"
  obtain s where s: "mouse_motion s1 xrel yrel = Some s" using mouse_motion_total by blast
  then have "pitch_deg s = clamp_pitch (pitch_deg s1 - real_of_int (sint yrel))"
    by (auto simp: mouse_motion_pressed [OF pressed] Let_def)
  then have "- 89 \<le> pitch_deg s \<and> pitch_deg s \<le> 89"
    using clamp_pitch_range by simp
  with s show "\<exists>s. handle_event s1 (SDL_MOUSEMOTION xrel yrel) = Some s \<and>
         - 89 \<le> pitch_deg s \<and> pitch_deg s \<le> 89"
    by simp
qed

theorem pitch_always_clamped_witness:
  "(\<exists>s0 s. init_state = Some s0 \<and>
      poll_events s0 [SDL_MOUSEBUTTONDOWN SDL_BUTTON_LEFT, SDL_MOUSEMOTION 0 (- 50),
                      SDL_MOUSEMOTION 3 (- 50), SDL_MOUSEMOTION 0 1000000] = Some s \<and>
      - 89 \<le> pitch_deg s \<and> pitch_deg s \<le> 89) \<and>
   is_lmb_pressed
     \<lparr>camera_pos = Vec3f 0 0 3, camera_dir = Vec3f 0 0 (- 1), camera_right = Vec3f 1 0 0,
      camera_up = Vec3f 0 1 0, yaw_deg = 0, pitch_deg = 80,
      look_at_matrix = [[1, 0, 0, 0], [0, 1, 0, 0], [0, 0, - 1, 3], [0, 0, 0, 1]],
      is_lmb_pressed = True, quit = False\<rparr> \<and>
   (\<exists>s. handle_event
      \<lparr>camera_pos = Vec3f 0 0 3, camera_dir = Vec3f 0 0 (- 1), camera_right = Vec3f 1 0 0,
       camera_up = Vec3f 0 1 0, yaw_deg = 0, pitch_deg = 80,
       look_at_matrix = [[1, 0, 0, 0], [0, 1, 0, 0], [0, 0, - 1, 3], [0, 0, 0, 1]],
       is_lmb_pressed = True, quit = False\<rparr> (SDL_MOUSEMOTION 0 (- 50)) = Some s \<and>
      - 89 \<le> pitch_deg s \<and> pitch_deg s \<le> 89)"
proof -
  let ?events = "[SDL_MOUSEBUTTONDOWN SDL_BUTTON_LEFT, SDL_MOUSEMOTION 0 (- 50),
        SDL_MOUSEMOTION 3 (- 50), SDL_MOUSEMOTION 0 1000000]"
  let ?s1 = "\<lparr>camera_pos = Vec3f 0 0 3, camera_dir = Vec3f 0 0 (- 1), camera_right = Vec3f 1 0 0,
       camera_up = Vec3f 0 1 0, yaw_deg = 0, pitch_deg = 80,
       look_at_matrix = [[1, 0, 0, 0], [0, 1, 0, 0], [0, 0, - 1, 3], [0, 0, 0, 1]],
       is_lmb_pressed = True, quit = False\<rparr>"
  note inst = pitch_always_clamped [of ?events ?s1 0 "- 50"]
  have held: "is_lmb_pressed ?s1" by simp
  from inst have a: "\<exists>s0 s. init_state = Some s0 \<and> poll_events s0 ?events = Some s \<and>
      - 89 \<le> pitch_deg s \<and> pitch_deg s \<le> 89"
    by (rule conjunct1)
  from inst held have b: "\<exists>s. handle_event ?s1 (SDL_MOUSEMOTION 0 (- 50)) = Some s \<and>
      - 89 \<le> pitch_deg s \<and> pitch_deg s \<le> 89"
    by blast
  from a held b show ?thesis by blast
qed

text \<open>
  Claim C5. The loop ends if and only if a window-close event or a press of the escape key
  has arrived. The loop of the camera program does so (\<open>main_loop_exits_iff\<close> above).
  The loop of the top-level \<open>main.c\<close> ends exactly on a press of the escape key
  (\<open>main_c_loop_exits_iff\<close>): given window-close events alone it is still running, on
  the input on which the camera program has exited.
\<close>

theorem main_c_loop_ignores_window_close:
  "main_c_loop False [[SDL_QUIT], [SDL_OTHER_EVENT, SDL_QUIT]] = Running \<and>
   (\<exists>rendered. main [[SDL_QUIT], [SDL_OTHER_EVENT, SDL_QUIT]] = Some (Exited, rendered))"
  by (simp add: main_def init_state_value)

text \<open>
  Claim C6. For a vector whose length is not zero, \<open>vec3f_normalize\<close> returns a vector
  of length exactly one; for a vector of length zero the division has no value and the
  result is undefined (\<open>None\<close>).
\<close>

theorem normalize_unit_length:
  "(vec3f_get_length v \<noteq> 0 \<longrightarrow>
      (\<exists>u. vec3f_normalize v = Some u \<and> vec3f_get_length u = 1)) \<and>
   (vec3f_get_length v = 0 \<longrightarrow> vec3f_normalize v = None)"
  using normalize_length [of v] by (simp add: vec3f_normalize_def)

theorem normalize_unit_length_witness:
  "vec3f_get_length (Vec3f 3 4 0) \<noteq> 0 \<and>
   (\<exists>u. vec3f_normalize (Vec3f 3 4 0) = Some u \<and> vec3f_get_length u = 1) \<and>
   vec3f_get_length (Vec3f 0 0 0) = 0 \<and> vec3f_normalize (Vec3f 0 0 0) = None"
proof -
  have nz: "vec3f_get_length (Vec3f 3 4 0) \<noteq> 0" and z: "vec3f_get_length (Vec3f 0 0 0) = 0"
    by (simp_all add: vec3f_get_length_def)
  from normalize_unit_length [of "Vec3f 3 4 0"] nz
  have a: "\<exists>u. vec3f_normalize (Vec3f 3 4 0) = Some u \<and> vec3f_get_length u = 1" by blast
  from normalize_unit_length [of "Vec3f 0 0 0"] z
  have b: "vec3f_normalize (Vec3f 0 0 0) = None" by blast
  from nz a z b show ?thesis by blast
qed

text \<open>
  Claim C7. On entry to the loop yaw and pitch are zero and the direction is
  \<open>(0, 0, -1)\<close>; once the left button is pressed, a drag by \<open>(0, 0)\<close> is processed and
  leaves the angles at zero and the direction at \<open>(0, 0, -1)\<close>.
\<close>

theorem zero_drag_keeps_direction:
  "\<exists>s0 s1 s2. init_state = Some s0 \<and> yaw_deg s0 = 0 \<and> pitch_deg s0 = 0 \<and>
     camera_dir s0 = Vec3f 0 0 (- 1) \<and>
     handle_event s0 (SDL_MOUSEBUTTONDOWN SDL_BUTTON_LEFT) = Some s1 \<and>
     handle_event s1 (SDL_MOUSEMOTION 0 0) = Some s2 \<and>
     yaw_deg s2 = 0 \<and> pitch_deg s2 = 0 \<and> camera_dir s2 = Vec3f 0 0 (- 1) \<and>
     camera_dir s2 = camera_dir s0"
  by (simp add: init_state_value mouse_motion_def Let_def vec3f_normalize_def vec3f_cross_def
      world_up_def vec3f_get_length_def)

text \<open>
  Claim C8. The cross product is anti-commutative: each cell of \<open>vec3f_cross a b\<close> is the
  negated cell of \<open>vec3f_cross b a\<close>.
\<close>

theorem cross_anticommutative:
  "vec3f_cross a b =
     Vec3f (- value0 (vec3f_cross b a)) (- value1 (vec3f_cross b a)) (- value2 (vec3f_cross b a))"
  by (simp add: vec3f_cross_def)

text \<open>
  Claim C9. A motion event that arrives while the left button is not held leaves the whole
  state as it was: angles, direction, right, up, position, view matrix and both flags.
\<close>

theorem motion_without_button_is_ignored:
  "\<not> is_lmb_pressed s \<Longrightarrow> handle_event s (SDL_MOUSEMOTION xrel yrel) = Some s"
  by (simp add: mouse_motion_def)

theorem motion_without_button_is_ignored_witness:
  "\<not> is_lmb_pressed
     \<lparr>camera_pos = Vec3f 0 0 3, camera_dir = Vec3f 0 0 (- 1), camera_right = Vec3f 1 0 0,
      camera_up = Vec3f 0 1 0, yaw_deg = 0, pitch_deg = 0,
      look_at_matrix = [[1, 0, 0, 0], [0, 1, 0, 0], [0, 0, - 1, 3], [0, 0, 0, 1]],
      is_lmb_pressed = False, quit = False\<rparr> \<and>
   handle_event
     \<lparr>camera_pos = Vec3f 0 0 3, camera_dir = Vec3f 0 0 (- 1), camera_right = Vec3f 1 0 0,
      camera_up = Vec3f 0 1 0, yaw_deg = 0, pitch_deg = 0,
      look_at_matrix = [[1, 0, 0, 0], [0, 1, 0, 0], [0, 0, - 1, 3], [0, 0, 0, 1]],
      is_lmb_pressed = False, quit = False\<rparr> (SDL_MOUSEMOTION 25 (- 40)) =
   Some
     \<lparr>camera_pos = Vec3f 0 0 3, camera_dir = Vec3f 0 0 (- 1), camera_right = Vec3f 1 0 0,
      camera_up = Vec3f 0 1 0, yaw_deg = 0, pitch_deg = 0,
      look_at_matrix = [[1, 0, 0, 0], [0, 1, 0, 0], [0, 0, - 1, 3], [0, 0, 0, 1]],
      is_lmb_pressed = False, quit = False\<rparr>"
proof -
  let ?s = "\<lparr>camera_pos = Vec3f 0 0 3, camera_dir = Vec3f 0 0 (- 1), camera_right = Vec3f 1 0 0,
      camera_up = Vec3f 0 1 0, yaw_deg = 0, pitch_deg = 0,
      look_at_matrix = [[1, 0, 0, 0], [0, 1, 0, 0], [0, 0, - 1, 3], [0, 0, 0, 1]],
      is_lmb_pressed = False, quit = False\<rparr>"
  have up: "\<not> is_lmb_pressed ?s" by simp
  from up motion_without_button_is_ignored [OF up, of 25 "- 40"] show ?thesis by blast
qed

text \<open>
  Claim C10, as the code has it. No clamp, wrap or normalisation is applied to
  \<open>yaw_deg\<close>: a drag processed while the left button is held stores the binary32 sum
  of the former value and \<open>xrel\<close>. As long as every \<open>xrel\<close> and every partial sum is
  at most \<open>2^24\<close> in magnitude, that sum is exact, and after the sequence of drags
  \<open>yaw_deg\<close> is its former value plus the sum of all \<open>xrel\<close>. Beyond \<open>2^24\<close> the sum
  is rounded, and \<open>yaw_deg\<close> never exceeds \<open>2^55\<close> in magnitude. The claim as
  written fails: at \<open>yaw_deg = 2^24\<close>, reached by one drag from zero, a drag by 1 leaves
  \<open>yaw_deg\<close> where it was.
\<close>

theorem yaw_f32_accumulates:
  "(exact_range yaw drags \<longrightarrow>
      yaw_drags_f32 yaw drags = yaw + (\<Sum>xrel\<leftarrow>drags. sint xrel)) \<and>
   (\<bar>yaw\<bar> \<le> 2 ^ 55 \<longrightarrow> \<bar>yaw_drags_f32 yaw drags\<bar> \<le> 2 ^ 55)"
  using yaw_drags_f32_exact [of yaw drags] yaw_drags_f32_bound [of yaw drags] by blast

theorem yaw_f32_accumulates_witness:
  "exact_range 0 [300, 300, - 20, 500, 16776136] \<and>
   yaw_drags_f32 0 [300, 300, - 20, 500, 16776136] = 16777216 \<and>
   \<bar>0 :: int\<bar> \<le> 2 ^ 55 \<and>
   \<bar>yaw_drags_f32 0 [300, 300, - 20, 500, 16776136]\<bar> \<le> 2 ^ 55"
proof -
  let ?drags = "[300, 300, - 20, 500, 16776136] :: 32 word list"
  note inst = yaw_f32_accumulates [of 0 ?drags]
  have range: "exact_range 0 ?drags" and start: "\<bar>0 :: int\<bar> \<le> 2 ^ 55" by simp_all
  from inst range have "yaw_drags_f32 0 ?drags = 0 + (\<Sum>xrel\<leftarrow>?drags. sint xrel)" by blast
  then have a: "yaw_drags_f32 0 ?drags = 16777216" by simp
  from inst start have b: "\<bar>yaw_drags_f32 0 ?drags\<bar> \<le> 2 ^ 55" by blast
  from range a start b show ?thesis by blast
qed

theorem yaw_f32_counterexample:
  "yaw_drags_f32 0 [16777216, 1] = 16777216 \<and>
   0 + sint (16777216 :: 32 word) + sint (1 :: 32 word) = 16777217 \<and>
   yaw_add_f32 16777216 1 = 16777216 \<and>
   16777216 + sint (1 :: 32 word) = 16777217 \<and>
   yaw_add_f32 0 2147483647 = 2147483648 \<and>
   yaw_add_f32 36028797018963968 2147483647 = 36028797018963968"
  by (simp add: f32_eval)

end
